theory Spec2Isabelle
  imports Complex_Main "HOL-Library.Word"
begin

section \<open>The K-means colour extractor of src/utils/colorExtractor.ts\<close>

text \<open>
  The engine works on JavaScript numbers, which are doubles. The integers it handles (a
  channel value, a sum of channel values, a squared distance, a count) are exact in double
  precision and are \<open>int\<close> and \<open>nat\<close> here. Three kinds of value are not integers:
  \<^item> the quotient \<open>sum / size\<close> that \<open>Math.round\<close> rounds in updateCenters: a quotient of
    integers, taken exactly (\<open>rat\<close>);
  \<^item> the percentage \<open>(size / length) * 100\<close>: two rounded double operations, modelled with
    \<open>roundDouble\<close> below, so that \<open>toFixed(1)\<close> formats the very value the code formats;
  \<^item> the products \<open>Math.random() * pixels.length\<close> and \<open>Math.random() * total\<close>: the model
    takes the value of such a product as given. \<open>rnd i m\<close> is the value of
    \<open>Math.random() * m\<close> at the \<open>i\<close>-th call of \<open>Math.random()\<close> in a run (counted from
    zero). Its contract \<open>validDraws\<close> is that the value lies in [0, m) for positive \<open>m\<close>,
    which holds of the exact product of a number in [0, 1) and of the rounded double
    product of a double in [0, 1) (lemmas \<open>exact_draw_valid\<close>, \<open>doubleDraws_valid\<close>).
  The options \<open>colorCount\<close> and \<open>maxIterations\<close> are integers of either sign. A pixel and
  a centre are the three-element arrays \<open>[r, g, b]\<close> of the source; the spread copy
  \<open>[...p]\<close> is the same value. The entries of the \<open>Int32Array\<close> of assignments are
  cluster indices below the number of pixels and are natural numbers here.
\<close>

type_synonym color = "int \<times> int \<times> int"

text \<open>
  \<open>TypeError\<close> and \<open>RangeError\<close> are the exceptions the engine can throw (a property read
  on \<open>undefined\<close>, \<open>new Array\<close> of a negative length). \<open>OutsideModel\<close> is no exception:
  it marks the places where JavaScript goes on with \<open>NaN\<close>, \<open>Infinity\<close> or an \<open>undefined\<close>
  array entry, values the number types above do not have. The model follows such a run no
  further.
\<close>

datatype error = TypeError | RangeError | OutsideModel

definition validDraw :: "(rat \<Rightarrow> rat) \<Rightarrow> bool" where
  "validDraw d = (\<forall>m. 0 < m \<longrightarrow> 0 \<le> d m \<and> d m < m)"

definition validDraws :: "(nat \<Rightarrow> rat \<Rightarrow> rat) \<Rightarrow> bool" where
  "validDraws rnd = (\<forall>i. validDraw (rnd i))"

definition validChannel :: "int \<Rightarrow> bool" where
  "validChannel x = (0 \<le> x \<and> x \<le> 255)"

fun validColor :: "color \<Rightarrow> bool" where
  "validColor (r, g, b) = (validChannel r \<and> validChannel g \<and> validChannel b)"

subsection \<open>Double arithmetic for the percentages\<close>

text \<open>
  \<open>roundDouble x\<close> is the double nearest to \<open>x\<close>, the one with the even last bit at a tie:
  \<open>x\<close> is scaled so that its magnitude lies in [2^52, 2^53), rounded to an integer and
  scaled back. This is the rounding of IEEE 754 for magnitudes from 2^-1022 up to the
  largest double (below that doubles are spaced evenly, above it the result is
  \<open>Infinity\<close>); the quotients \<open>size / length\<close> of the engine, with array lengths below
  2^32, and their products with 100 lie in that range. \<open>bitLength n\<close> is the number of
  binary digits of \<open>n\<close>, and \<open>binaryExponent x\<close> the integer \<open>e\<close> with
  \<open>2^e <= x < 2^(e+1)\<close>, for positive \<open>x\<close>.
\<close>

fun bitLength :: "nat \<Rightarrow> nat" where
  "bitLength n = (if n = 0 then 0 else Suc (bitLength (n div 2)))"

declare bitLength.simps [simp del]

definition binaryExponent :: "rat \<Rightarrow> int" where
  "binaryExponent x =
     (if 1 \<le> x then int (bitLength (nat \<lfloor>x\<rfloor>)) - 1
      else (let e = - int (bitLength (nat \<lfloor>1 / x\<rfloor>))
            in if 2 powi (e + 1) \<le> x then e + 1 else e))"

definition roundHalfEven :: "rat \<Rightarrow> int" where
  "roundHalfEven q =
     (let n = \<lfloor>q\<rfloor>; f = q - of_int n
      in if f < 1 / 2 then n else if 1 / 2 < f then n + 1 else if even n then n else n + 1)"

definition roundDouble :: "rat \<Rightarrow> rat" where
  "roundDouble x =
     (if x = 0 then 0
      else (let s = 2 powi (binaryExponent \<bar>x\<bar> - 52)
            in sgn x * of_int (roundHalfEven (\<bar>x\<bar> / s)) * s))"

subsection \<open>Pixel sampling: the loop over the RGBA bytes in extractColors\<close>

text \<open>
  \<open>data\<close> is the \<open>Uint8ClampedArray\<close> of \<open>getImageData\<close>. The loop steps by four bytes and
  keeps the pixels whose alpha byte is greater than zero. With fewer than four bytes left,
  \<open>data[i + 3]\<close> is \<open>undefined\<close>, the test is false and the loop ends.
\<close>

fun samplePixels :: "8 word list \<Rightarrow> color list" where
  "samplePixels (r # g # b # a # rest) =
     (if a > 0 then (uint r, uint g, uint b) # samplePixels rest else samplePixels rest)"
| "samplePixels _ = []"

subsection \<open>rgbToHex and the strings of a ColorResult\<close>

text \<open>The digits of \<open>toString\<close> and \<open>toFixed\<close>, for a radix up to 16.\<close>

definition digitChar :: "nat \<Rightarrow> char" where
  "digitChar d = ''0123456789abcdef'' ! (d mod 16)"

fun natToString :: "nat \<Rightarrow> nat \<Rightarrow> string" where
  "natToString radix n =
     (if radix < 2 \<or> n < radix then [digitChar n]
      else natToString radix (n div radix) @ [digitChar (n mod radix)])"

declare natToString.simps [simp del]

text \<open>\<open>x.toString(radix)\<close> for an integer \<open>x\<close>: a minus sign, then the digits.\<close>

definition toString :: "nat \<Rightarrow> int \<Rightarrow> string" where
  "toString radix x =
     (if x < 0 then CHR ''-'' # natToString radix (nat (- x)) else natToString radix (nat x))"

definition padStart :: "nat \<Rightarrow> char \<Rightarrow> string \<Rightarrow> string" where
  "padStart n c s = replicate (n - length s) c @ s"

definition rgbToHex :: "int \<Rightarrow> int \<Rightarrow> int \<Rightarrow> string" where
  "rgbToHex r g b =
     ''#'' @ concat (map (\<lambda>x. padStart 2 (CHR ''0'') (toString 16 x)) [r, g, b])"

definition rgbString :: "int \<Rightarrow> int \<Rightarrow> int \<Rightarrow> string" where
  "rgbString r g b =
     ''rgb('' @ toString 10 r @ '', '' @ toString 10 g @ '', '' @ toString 10 b @ '')''"

text \<open>
  \<open>x.toFixed(1)\<close>, as ECMAScript defines it on the exact value of the double \<open>x\<close> (below
  10^21): the integer \<open>n\<close> with \<open>n / 10\<close> nearest to \<open>x\<close>, the larger one at a tie, printed
  with one digit after the point. \<open>None\<close> is \<open>NaN\<close>.
\<close>

definition toFixed1 :: "rat option \<Rightarrow> string" where
  "toFixed1 x =
     (case x of
        None \<Rightarrow> ''NaN''
      | Some v \<Rightarrow>
          (if v < 0 then
             (let n = nat \<lfloor>- v * 10 + 1 / 2\<rfloor>
              in ''-'' @ natToString 10 (n div 10) @ ''.'' @ [digitChar (n mod 10)])
           else
             (let n = nat \<lfloor>v * 10 + 1 / 2\<rfloor>
              in natToString 10 (n div 10) @ ''.'' @ [digitChar (n mod 10)])))"

record ColorResult =
  hex :: string
  rgb :: string
  chanR :: int
  chanG :: int
  chanB :: int
  percentage :: string

subsection \<open>colorDistanceSq, minDistancesToCenters\<close>

fun colorDistanceSq :: "color \<Rightarrow> color \<Rightarrow> int" where
  "colorDistanceSq (r1, g1, b1) (r2, g2, b2) =
     (let dr = r1 - r2; dg = g1 - g2; db = b1 - b2
      in dr * dr + dg * dg + db * db)"

text \<open>
  \<open>Math.min(...ds)\<close> of an empty list is \<open>Infinity\<close>; that happens only for an empty centre
  list with some pixel, where the model stops.
\<close>

definition minDistancesToCenters :: "color list \<Rightarrow> color list \<Rightarrow> error + int list" where
  "minDistancesToCenters pixels centers =
     (case centers of
        [] \<Rightarrow> (if pixels = [] then Inr [] else Inl OutsideModel)
      | c # cs \<Rightarrow>
          Inr (map (\<lambda>p. fold min (map (colorDistanceSq p) cs) (colorDistanceSq p c)) pixels))"

subsection \<open>weightedRandomPick, kMeansPlusPlusInit\<close>

text \<open>
  \<open>[...pixels[Math.floor(Math.random() * pixels.length)]]\<close>, with \<open>d m\<close> the value of
  \<open>Math.random() * m\<close>: spreading \<open>undefined\<close> throws.
\<close>

definition randomPixel :: "(rat \<Rightarrow> rat) \<Rightarrow> color list \<Rightarrow> error + color" where
  "randomPixel d pixels =
     (let i = \<lfloor>d (of_nat (length pixels))\<rfloor>
      in if 0 \<le> i \<and> i < int (length pixels) then Inr (pixels ! nat i) else Inl TypeError)"

text \<open>
  The subtraction loop of weightedRandomPick; \<open>None\<close> means that the loop ended without a
  return. When the distances run out before the pixels, \<open>r\<close> becomes \<open>NaN\<close> and no later
  test \<open>r <= 0\<close> holds. The subtraction is exact: the weights are non-negative integers,
  and as long as the loop goes on the difference lies between 0 and \<open>r\<close> and is a
  multiple of the last binary place of \<open>r\<close>, hence a double; when the difference is not
  positive the loop returns, whatever its rounding.
\<close>

fun pickLoop :: "rat \<Rightarrow> color list \<Rightarrow> int list \<Rightarrow> color option" where
  "pickLoop r [] ds = None"
| "pickLoop r (p # ps) [] = None"
| "pickLoop r (p # ps) (d # ds) =
     (let r' = r - of_int d in if r' \<le> 0 then Some p else pickLoop r' ps ds)"

definition weightedRandomPick :: "(rat \<Rightarrow> rat) \<Rightarrow> color list \<Rightarrow> int list \<Rightarrow> error + color" where
  "weightedRandomPick d pixels distances =
     (let total = foldl (\<lambda>a b. a + b) 0 distances
      in if total = 0 then randomPixel d pixels
         else (case pickLoop (d (of_int total)) pixels distances of
                 Some p \<Rightarrow> Inr p
               | None \<Rightarrow> (if pixels = [] then Inl TypeError else Inr (last pixels))))"

text \<open>
  The loop \<open>for (c = 1; c < k; c++)\<close> of kMeansPlusPlusInit, with \<open>m\<close> the number of rounds
  left. Each round calls \<open>Math.random()\<close> once, so round \<open>c\<close> reads \<open>rnd c\<close>.
\<close>

fun seedLoop :: "nat \<Rightarrow> (nat \<Rightarrow> rat \<Rightarrow> rat) \<Rightarrow> nat \<Rightarrow> color list \<Rightarrow> color list \<Rightarrow> error + color list" where
  "seedLoop 0 rnd c pixels centers = Inr centers"
| "seedLoop (Suc m) rnd c pixels centers =
     (case minDistancesToCenters pixels centers of
        Inl e \<Rightarrow> Inl e
      | Inr distances \<Rightarrow>
          (case weightedRandomPick (rnd c) pixels distances of
             Inl e \<Rightarrow> Inl e
           | Inr p \<Rightarrow> seedLoop m rnd (Suc c) pixels (centers @ [p])))"

definition kMeansPlusPlusInit :: "(nat \<Rightarrow> rat \<Rightarrow> rat) \<Rightarrow> color list \<Rightarrow> int \<Rightarrow> error + color list" where
  "kMeansPlusPlusInit rnd pixels k =
     (case randomPixel (rnd 0) pixels of
        Inl e \<Rightarrow> Inl e
      | Inr p \<Rightarrow> seedLoop (nat (k - 1)) rnd 1 pixels [p])"

subsection \<open>assignPixelsToCenters\<close>

text \<open>
  The inner loop \<open>for (i = 0; i < k; i++)\<close>, with \<open>m = k - i\<close> rounds left. \<open>minDistSq\<close>
  starts as \<open>Infinity\<close>, here \<open>None\<close>. Reading \<open>centers[i]\<close> beyond the array gives
  \<open>undefined\<close>, and colorDistanceSq throws on it.
\<close>

fun nearest :: "color \<Rightarrow> color list \<Rightarrow> nat \<Rightarrow> nat \<Rightarrow> int option \<Rightarrow> nat \<Rightarrow> error + nat" where
  "nearest pixel centers 0 i minDistSq closest = Inr closest"
| "nearest pixel centers (Suc m) i minDistSq closest =
     (if i < length centers then
        (let d = colorDistanceSq pixel (centers ! i)
         in if (case minDistSq of None \<Rightarrow> True | Some v \<Rightarrow> d < v)
            then nearest pixel centers m (Suc i) (Some d) i
            else nearest pixel centers m (Suc i) minDistSq closest)
      else Inl TypeError)"

text \<open>
  The loop over the pixels. The assignments array is written front to back, so on a normal
  return it is the list of the chosen indices. \<open>clusterSizes[closest]++\<close> beyond the array
  (only for \<open>k = 0\<close>) stores \<open>NaN\<close>.
\<close>

fun assignLoop :: "color list \<Rightarrow> color list \<Rightarrow> nat \<Rightarrow> nat list \<Rightarrow> error + (nat list \<times> nat list)" where
  "assignLoop [] centers k clusterSizes = Inr ([], clusterSizes)"
| "assignLoop (pixel # rest) centers k clusterSizes =
     (case nearest pixel centers k 0 None 0 of
        Inl e \<Rightarrow> Inl e
      | Inr closest \<Rightarrow>
          (if closest < length clusterSizes then
             (case assignLoop rest centers k (clusterSizes[closest := clusterSizes ! closest + 1]) of
                Inl e \<Rightarrow> Inl e
              | Inr (assignments, sizes) \<Rightarrow> Inr (closest # assignments, sizes))
           else Inl OutsideModel))"

definition assignPixelsToCenters :: "color list \<Rightarrow> color list \<Rightarrow> int \<Rightarrow> error + (nat list \<times> nat list)" where
  "assignPixelsToCenters pixels centers k =
     (if k < 0 then Inl RangeError
      else assignLoop pixels centers (nat k) (replicate (nat k) 0))"

subsection \<open>updateCenters\<close>

text \<open>\<open>Math.round\<close>: the nearest integer, the larger one at a tie.\<close>

definition mathRound :: "rat \<Rightarrow> int" where
  "mathRound x = \<lfloor>x + 1 / 2\<rfloor>"

text \<open>
  The accumulation loop; \<open>acc\<close> is the array \<open>sums\<close> of the source. \<open>sums[c]\<close> is \<open>undefined\<close> for \<open>c\<close> beyond the array (and for a
  missing assignment), and \<open>sums[c][0]\<close> throws.
\<close>

fun sumLoop :: "color list \<Rightarrow> nat list \<Rightarrow> color list \<Rightarrow> error + color list" where
  "sumLoop [] assignments acc = Inr acc"
| "sumLoop (pixel # rest) [] acc = Inl TypeError"
| "sumLoop ((r, g, b) # rest) (c # assignments) acc =
     (if c < length acc then
        (case acc ! c of
           (sr, sg, sb) \<Rightarrow> sumLoop rest assignments (acc[c := (sr + r, sg + g, sb + b)]))
      else Inl TypeError)"

text \<open>
  The callback of \<open>sums.map\<close> at index \<open>i\<close>. A missing \<open>clusterSizes[i]\<close> is \<open>undefined\<close> and
  fails the test \<open>> 0\<close>; a missing \<open>oldCenters[i]\<close> puts \<open>undefined\<close> into the result.
\<close>

definition newCenter :: "color \<Rightarrow> nat \<Rightarrow> nat list \<Rightarrow> color list \<Rightarrow> error + color" where
  "newCenter s i clusterSizes oldCenters =
     (if i < length clusterSizes \<and> clusterSizes ! i > 0 then
        (case s of
           (sr, sg, sb) \<Rightarrow>
             Inr (mathRound (of_int sr / of_nat (clusterSizes ! i)),
                  mathRound (of_int sg / of_nat (clusterSizes ! i)),
                  mathRound (of_int sb / of_nat (clusterSizes ! i))))
      else if i < length oldCenters then Inr (oldCenters ! i)
      else Inl OutsideModel)"

fun mapSums :: "color list \<Rightarrow> nat \<Rightarrow> nat list \<Rightarrow> color list \<Rightarrow> error + color list" where
  "mapSums [] i clusterSizes oldCenters = Inr []"
| "mapSums (s # rest) i clusterSizes oldCenters =
     (case newCenter s i clusterSizes oldCenters of
        Inl e \<Rightarrow> Inl e
      | Inr c \<Rightarrow>
          (case mapSums rest (Suc i) clusterSizes oldCenters of
             Inl e \<Rightarrow> Inl e
           | Inr cs \<Rightarrow> Inr (c # cs)))"

definition updateCenters ::
  "color list \<Rightarrow> nat list \<Rightarrow> nat list \<Rightarrow> color list \<Rightarrow> int \<Rightarrow> error + color list" where
  "updateCenters pixels assignments clusterSizes oldCenters k =
     (case sumLoop pixels assignments (replicate (nat k) (0, 0, 0)) of
        Inl e \<Rightarrow> Inl e
      | Inr acc \<Rightarrow> mapSums acc 0 clusterSizes oldCenters)"

subsection \<open>kMeansClustering\<close>

definition CONVERGE_THRESHOLD_SQ :: int where
  "CONVERGE_THRESHOLD_SQ = 25"

text \<open>
  \<open>centers.every((c, i) => colorDistanceSq(c, newCenters[i]) <= 25)\<close>: it stops at the
  first centre that moved too far, and throws on a missing \<open>newCenters[i]\<close>.
\<close>

fun converged :: "color list \<Rightarrow> color list \<Rightarrow> error + bool" where
  "converged [] newCenters = Inr True"
| "converged (c # cs) [] = Inl TypeError"
| "converged (c # cs) (n # ns) =
     (if colorDistanceSq c n \<le> CONVERGE_THRESHOLD_SQ then converged cs ns else Inr False)"

text \<open>
  The loop \<open>for (iteration = 0; iteration < maxIterations; iteration++)\<close>, with \<open>m\<close> the
  number of rounds left. The third component of the result counts the rounds that ran (one
  Assignment and one Update each); the source does not return it.
\<close>

fun iterate ::
  "nat \<Rightarrow> color list \<Rightarrow> int \<Rightarrow> color list \<Rightarrow> nat list \<Rightarrow> nat \<Rightarrow> error + (color list \<times> nat list \<times> nat)" where
  "iterate 0 pixels k centers clusterSizes rounds = Inr (centers, clusterSizes, rounds)"
| "iterate (Suc m) pixels k centers clusterSizes rounds =
     (case assignPixelsToCenters pixels centers k of
        Inl e \<Rightarrow> Inl e
      | Inr (assignments, sizes) \<Rightarrow>
          (case updateCenters pixels assignments sizes centers k of
             Inl e \<Rightarrow> Inl e
           | Inr newCenters \<Rightarrow>
               (case converged centers newCenters of
                  Inl e \<Rightarrow> Inl e
                | Inr stop \<Rightarrow>
                    if stop then Inr (newCenters, sizes, Suc rounds)
                    else iterate m pixels k newCenters sizes (Suc rounds))))"

text \<open>
  \<open>(clusterSizes[i] / pixels.length) * 100\<close>: a double division, then a double
  multiplication. A missing \<open>clusterSizes[i]\<close> gives \<open>NaN\<close>, here \<open>None\<close>. The number \<open>n\<close>
  of pixels is positive where the engine gets here; a division by \<open>n = 0\<close> would give
  \<open>NaN\<close> or \<open>Infinity\<close>, no number of the model, and is \<open>None\<close> as well.
\<close>

definition percentageAt :: "nat list \<Rightarrow> nat \<Rightarrow> nat \<Rightarrow> rat option" where
  "percentageAt clusterSizes n i =
     (if i < length clusterSizes \<and> 0 < n
      then Some (roundDouble (roundDouble (of_nat (clusterSizes ! i) / of_nat n) * 100))
      else None)"

text \<open>
  The comparator \<open>(a, b) => b.percentage - a.percentage\<close>; a \<open>NaN\<close> result counts as zero.
  Only the sign of the difference is used, and the rounded difference of two doubles has
  the sign of the exact one.
\<close>

definition compareFn :: "color \<times> rat option \<Rightarrow> color \<times> rat option \<Rightarrow> rat" where
  "compareFn a b =
     (case (snd b, snd a) of (Some pb, Some pa) \<Rightarrow> pb - pa | _ \<Rightarrow> 0)"

text \<open>
  \<open>Array.prototype.sort\<close> is stable. For a comparator that is a consistent ordering (here
  the percentages are all numbers or all \<open>NaN\<close>) every stable sort returns the same array;
  the model is insertion sort, which puts an element before the first one it does not
  follow.
\<close>

fun insertSorted :: "('a \<Rightarrow> 'a \<Rightarrow> rat) \<Rightarrow> 'a \<Rightarrow> 'a list \<Rightarrow> 'a list" where
  "insertSorted cmp x [] = [x]"
| "insertSorted cmp x (y # ys) =
     (if cmp x y \<le> 0 then x # y # ys else y # insertSorted cmp x ys)"

fun sortBy :: "('a \<Rightarrow> 'a \<Rightarrow> rat) \<Rightarrow> 'a list \<Rightarrow> 'a list" where
  "sortBy cmp [] = []"
| "sortBy cmp (x # xs) = insertSorted cmp x (sortBy cmp xs)"

definition rankClusters :: "color list \<Rightarrow> nat list \<Rightarrow> nat \<Rightarrow> (color \<times> rat option) list" where
  "rankClusters centers clusterSizes n =
     sortBy compareFn
       (map (\<lambda>(color, i). (color, percentageAt clusterSizes n i))
          (zip centers [0 ..< length centers]))"

definition kMeansClustering ::
  "(nat \<Rightarrow> rat \<Rightarrow> rat) \<Rightarrow> color list \<Rightarrow> int \<Rightarrow> int \<Rightarrow> error + (color \<times> rat option) list" where
  "kMeansClustering rnd pixels k maxIterations =
     (if pixels = [] then Inr []
      else
        (let k' = min k (int (length pixels))
         in case kMeansPlusPlusInit rnd pixels k' of
              Inl e \<Rightarrow> Inl e
            | Inr centers \<Rightarrow>
                (case iterate (nat maxIterations) pixels k' centers [] 0 of
                   Inl e \<Rightarrow> Inl e
                 | Inr (finalCenters, clusterSizes, rounds) \<Rightarrow>
                     Inr (rankClusters finalCenters clusterSizes (length pixels)))))"

subsection \<open>extractColors, from the sampled bytes on\<close>

fun toColorResult :: "color \<times> rat option \<Rightarrow> ColorResult" where
  "toColorResult ((r, g, b), p) =
     \<lparr>hex = rgbToHex r g b, rgb = rgbString r g b,
      chanR = r, chanG = g, chanB = b, percentage = toFixed1 p\<rparr>"

definition extractColors ::
  "(nat \<Rightarrow> rat \<Rightarrow> rat) \<Rightarrow> 8 word list \<Rightarrow> int \<Rightarrow> int \<Rightarrow> error + ColorResult list" where
  "extractColors rnd data colorCount maxIterations =
     (case kMeansClustering rnd (samplePixels data) colorCount maxIterations of
        Inl e \<Rightarrow> Inl e
      | Inr colorResults \<Rightarrow> Inr (map toColorResult colorResults))"

subsection \<open>Specification vocabulary\<close>

text \<open>
  \<open>isFirstMin d k c\<close>: among the indices below \<open>k\<close>, \<open>c\<close> is the first one at which \<open>d\<close> is
  minimal.
\<close>

definition isFirstMin :: "(nat \<Rightarrow> int) \<Rightarrow> nat \<Rightarrow> nat \<Rightarrow> bool" where
  "isFirstMin d k c = (c < k \<and> (\<forall>j<k. d c \<le> d j) \<and> (\<forall>j<c. d c < d j))"

text \<open>
  \<open>members pixels assignments c\<close>: the pixels assigned to cluster \<open>c\<close>, in order.
  \<open>channelSums\<close>: their per-channel sums. \<open>scaledMean s n\<close>: the sums \<open>s\<close> divided by \<open>n\<close> and
  rounded, channel by channel. \<open>roundedMean\<close>: the rounded mean of a list of pixels.
\<close>

definition members :: "color list \<Rightarrow> nat list \<Rightarrow> nat \<Rightarrow> color list" where
  "members pixels assignments c =
     map fst (filter (\<lambda>pa. snd pa = c) (zip pixels assignments))"

fun addColor :: "color \<Rightarrow> color \<Rightarrow> color" where
  "addColor (r1, g1, b1) (r2, g2, b2) = (r1 + r2, g1 + g2, b1 + b2)"

fun channelSums :: "color list \<Rightarrow> color" where
  "channelSums [] = (0, 0, 0)"
| "channelSums (p # ps) = addColor (channelSums ps) p"

definition scaledMean :: "color \<Rightarrow> nat \<Rightarrow> color" where
  "scaledMean s n =
     (case s of
        (sr, sg, sb) \<Rightarrow>
          (mathRound (of_int sr / of_nat n),
           mathRound (of_int sg / of_nat n),
           mathRound (of_int sb / of_nat n)))"


text \<open>
  \<open>roundsFrom j\<close> runs \<open>j\<close> rounds (Assignment, then Update) with no convergence test;
  \<open>convergedAt ... j\<close> says that in round \<open>j\<close> (counted from zero, as \<open>iteration\<close> in the
  source) every centre moved by a squared distance of at most 25.
\<close>

fun roundsFrom ::
  "nat \<Rightarrow> color list \<Rightarrow> int \<Rightarrow> color list \<Rightarrow> nat list \<Rightarrow> error + (color list \<times> nat list)" where
  "roundsFrom 0 pixels k centers clusterSizes = Inr (centers, clusterSizes)"
| "roundsFrom (Suc j) pixels k centers clusterSizes =
     (case assignPixelsToCenters pixels centers k of
        Inl e \<Rightarrow> Inl e
      | Inr (assignments, sizes) \<Rightarrow>
          (case updateCenters pixels assignments sizes centers k of
             Inl e \<Rightarrow> Inl e
           | Inr newCenters \<Rightarrow> roundsFrom j pixels k newCenters sizes))"

definition convergedAt :: "color list \<Rightarrow> int \<Rightarrow> color list \<Rightarrow> nat list \<Rightarrow> nat \<Rightarrow> bool" where
  "convergedAt pixels k centers clusterSizes j =
     (case roundsFrom j pixels k centers clusterSizes of
        Inl e \<Rightarrow> False
      | Inr (old, sizes) \<Rightarrow>
          (case roundsFrom 1 pixels k old sizes of
             Inl e \<Rightarrow> False
           | Inr (new, sizes') \<Rightarrow> converged old new = Inr True))"


text \<open>A draw sequence and two pixel lists for the concrete runs below.\<close>

definition zeroDraws :: "nat \<Rightarrow> rat \<Rightarrow> rat" where
  "zeroDraws i m = 0"

definition halfDraws :: "nat \<Rightarrow> rat \<Rightarrow> rat" where
  "halfDraws i m = m / 2"

definition blackWhite :: "color list" where
  "blackWhite = [(0, 0, 0), (0, 0, 0), (255, 255, 255), (255, 255, 255)]"

definition threeTones :: "color list" where
  "threeTones =
     [(10, 10, 10), (120, 120, 120), (250, 250, 250), (10, 10, 10),
      (120, 120, 120), (250, 250, 250), (10, 10, 10), (120, 120, 120),
      (250, 250, 250), (10, 10, 10), (120, 120, 120), (250, 250, 250)]"

definition threePixels :: "color list" where
  "threePixels = [(10, 10, 10), (120, 120, 120), (250, 250, 250)]"

definition black50 :: ColorResult where
  "black50 = \<lparr>hex = ''#000000'', rgb = ''rgb(0, 0, 0)'', chanR = 0, chanG = 0, chanB = 0,
              percentage = ''50.0''\<rparr>"

definition white50 :: ColorResult where
  "white50 = \<lparr>hex = ''#ffffff'', rgb = ''rgb(255, 255, 255)'', chanR = 255, chanG = 255,
              chanB = 255, percentage = ''50.0''\<rparr>"










section \<open>Seeding: the draws stay inside the pixel list\<close>

lemma validDraw_range:
  assumes "validDraw d" "0 < m"
  shows "0 \<le> d m" "d m < m"
  using assms by (simp_all add: validDraw_def)

lemma exact_draw_valid: "0 \<le> u \<Longrightarrow> u < 1 \<Longrightarrow> validDraw (\<lambda>m. u * m)"
  by (simp add: validDraw_def)

lemma randomPixel_index:
  assumes "validDraw d" "pixels \<noteq> []"
  shows "0 \<le> \<lfloor>d (of_nat (length pixels))\<rfloor> \<and> \<lfloor>d (of_nat (length pixels))\<rfloor> < int (length pixels)"
proof -
  let ?n = "length pixels"
  have n: "(0::rat) < of_nat ?n" using assms(2) by simp
  note r = validDraw_range [OF assms(1) n]
  have lo: "0 \<le> \<lfloor>d (of_nat ?n)\<rfloor>" using r(1) by simp
  have "d (of_nat ?n) < of_int (int ?n)" using r(2) by simp
  then have "\<lfloor>d (of_nat ?n)\<rfloor> < int ?n" by (simp only: floor_less_iff)
  with lo show ?thesis by simp
qed

lemma randomPixel_ok:
  assumes "validDraw d" "pixels \<noteq> []"
  shows "randomPixel d pixels = Inr (pixels ! nat \<lfloor>d (of_nat (length pixels))\<rfloor>)"
    and "nat \<lfloor>d (of_nat (length pixels))\<rfloor> < length pixels"
proof -
  note idx = randomPixel_index [OF assms]
  show "randomPixel d pixels = Inr (pixels ! nat \<lfloor>d (of_nat (length pixels))\<rfloor>)"
    using idx unfolding randomPixel_def Let_def by (simp only: simp_thms if_True)
  show "nat \<lfloor>d (of_nat (length pixels))\<rfloor> < length pixels"
    using idx by linarith
qed

lemma randomPixel_mem:
  assumes "validDraw d" "pixels \<noteq> []"
  shows "\<exists>p \<in> set pixels. randomPixel d pixels = Inr p"
  using randomPixel_ok [OF assms] by (metis nth_mem)

lemma foldl_plus_sum_list: "foldl (\<lambda>a b. a + b) (a :: int) ds = a + sum_list ds"
  by (induction ds arbitrary: a) simp_all

lemma pickLoop_mem: "pickLoop r ps ds = Some p \<Longrightarrow> p \<in> set ps"
  by (induction r ps ds rule: pickLoop.induct) (auto simp: Let_def split: if_splits)

lemma weightedRandomPick_mem:
  assumes "validDraw d" "pixels \<noteq> []"
  shows "\<exists>p \<in> set pixels. weightedRandomPick d pixels distances = Inr p"
proof (cases "foldl (\<lambda>a b. a + b) 0 distances = 0")
  case True
  then show ?thesis using randomPixel_mem [OF assms] by (simp add: weightedRandomPick_def)
next
  case False
  show ?thesis
  proof (cases "pickLoop (d (of_int (foldl (\<lambda>a b. a + b) 0 distances))) pixels distances")
    case None
    then show ?thesis using False assms(2) by (simp add: weightedRandomPick_def)
  next
    case (Some p)
    then show ?thesis using False pickLoop_mem [OF Some] by (simp add: weightedRandomPick_def)
  qed
qed

lemma minDistancesToCenters_ok:
  assumes "centers \<noteq> []"
  shows "\<exists>ds. minDistancesToCenters pixels centers = Inr ds \<and> length ds = length pixels"
  using assms by (cases centers) (simp_all add: minDistancesToCenters_def)

lemma seedLoop_ok:
  assumes "validDraws rnd" "pixels \<noteq> []"
  shows "centers \<noteq> [] \<Longrightarrow>
    \<exists>cs. seedLoop m rnd c pixels centers = Inr cs \<and> length cs = length centers + m
        \<and> set cs \<subseteq> set centers \<union> set pixels"
proof (induction m arbitrary: c centers)
  case 0
  then show ?case by simp
next
  case (Suc m)
  obtain ds where ds: "minDistancesToCenters pixels centers = Inr ds"
    using minDistancesToCenters_ok [OF Suc.prems] by blast
  have "validDraw (rnd c)" using assms(1) by (simp add: validDraws_def)
  then obtain p where p: "p \<in> set pixels" "weightedRandomPick (rnd c) pixels ds = Inr p"
    using weightedRandomPick_mem assms(2) by blast
  have "centers @ [p] \<noteq> []" by simp
  from Suc.IH [OF this, of "Suc c"] obtain cs where
    cs: "seedLoop m rnd (Suc c) pixels (centers @ [p]) = Inr cs"
        "length cs = length (centers @ [p]) + m"
        "set cs \<subseteq> set (centers @ [p]) \<union> set pixels" by blast
  show ?case using ds p cs by auto
qed

lemma kMeansPlusPlusInit_ok:
  assumes "validDraws rnd" "pixels \<noteq> []"
  shows "\<exists>cs. kMeansPlusPlusInit rnd pixels k = Inr cs \<and> length cs = Suc (nat (k - 1))
        \<and> set cs \<subseteq> set pixels"
proof -
  have "validDraw (rnd 0)" using assms(1) by (simp add: validDraws_def)
  then obtain p where p: "p \<in> set pixels" "randomPixel (rnd 0) pixels = Inr p"
    using randomPixel_mem assms(2) by blast
  have "[p] \<noteq> []" by simp
  from seedLoop_ok [OF assms this, of "nat (k - 1)" 1] obtain cs where
    "seedLoop (nat (k - 1)) rnd 1 pixels [p] = Inr cs" "length cs = length [p] + nat (k - 1)"
    "set cs \<subseteq> set [p] \<union> set pixels" by blast
  then show ?thesis using p by (auto simp: kMeansPlusPlusInit_def)
qed


lemma pickLoop_finds:
  "i < length ps \<Longrightarrow> i < length ds \<Longrightarrow> r \<le> of_int (sum_list (take (Suc i) ds)) \<Longrightarrow>
   \<exists>p. pickLoop r ps ds = Some p"
proof (induction r ps ds arbitrary: i rule: pickLoop.induct)
  case (1 r ds)
  then show ?case by simp
next
  case (2 r p ps)
  then show ?case by simp
next
  case (3 r q ps d ds)
  show ?case
  proof (cases "r - of_int d \<le> 0")
    case True
    then have "pickLoop r (q # ps) (d # ds) = Some q" by simp
    then show ?thesis by blast
  next
    case False
    then obtain i' where i': "i = Suc i'" using "3.prems"(3) by (cases i) auto
    have "r - of_int d \<le> of_int (sum_list (take (Suc i') ds))"
      using "3.prems"(3) i' by simp
    from "3.IH" [OF refl False _ _ this] "3.prems"(1,2) i'
    have "\<exists>p. pickLoop (r - of_int d) ps ds = Some p" by simp
    then show ?thesis using False by simp
  qed
qed

section \<open>Seeding follows the weights\<close>









section \<open>The Assignment step\<close>

lemma nearest_inv:
  assumes "i + m \<le> length centers"
    and "(i = 0 \<and> minDistSq = None \<and> closest = 0) \<or>
         (minDistSq = Some (colorDistanceSq pixel (centers ! closest)) \<and>
          isFirstMin (\<lambda>j. colorDistanceSq pixel (centers ! j)) i closest)"
    and "0 < i + m"
  shows "\<exists>c. nearest pixel centers m i minDistSq closest = Inr c \<and>
             isFirstMin (\<lambda>j. colorDistanceSq pixel (centers ! j)) (i + m) c"
  using assms
proof (induction m arbitrary: i minDistSq closest)
  case 0
  then show ?case by (auto simp: isFirstMin_def)
next
  case (Suc m)
  let ?d = "\<lambda>j. colorDistanceSq pixel (centers ! j)"
  have i: "i < length centers" using Suc.prems(1) by simp
  show ?case
  proof (cases "case minDistSq of None \<Rightarrow> True | Some v \<Rightarrow> ?d i < v")
    case True
    have inv: "isFirstMin ?d (Suc i) i"
      using Suc.prems(2) True
      by (auto simp: isFirstMin_def less_Suc_eq split: option.splits)
    have "\<exists>c. nearest pixel centers m (Suc i) (Some (?d i)) i = Inr c \<and>
             isFirstMin ?d (Suc i + m) c"
      by (rule Suc.IH) (use Suc.prems(1) inv in auto)
    then show ?thesis using True i by (simp add: Let_def)
  next
    case False
    then obtain v where v: "minDistSq = Some v" "\<not> ?d i < v"
      by (cases minDistSq) auto
    have old: "minDistSq = Some (?d closest)" "isFirstMin ?d i closest"
      using Suc.prems(2) v by auto
    have inv: "isFirstMin ?d (Suc i) closest"
      using old v by (auto simp: isFirstMin_def less_Suc_eq)
    have "\<exists>c. nearest pixel centers m (Suc i) minDistSq closest = Inr c \<and>
             isFirstMin ?d (Suc i + m) c"
      by (rule Suc.IH) (use Suc.prems(1) inv old in auto)
    then show ?thesis using False i by (simp add: Let_def)
  qed
qed

lemma nearest_firstMin:
  assumes "0 < k" "k \<le> length centers"
  shows "\<exists>c. nearest pixel centers k 0 None 0 = Inr c \<and>
             isFirstMin (\<lambda>j. colorDistanceSq pixel (centers ! j)) k c"
  using nearest_inv [of 0 k centers None 0 pixel] assms by simp

lemma sum_list_incr:
  "c < length (xs :: nat list) \<Longrightarrow> sum_list (xs[c := Suc (xs ! c)]) = Suc (sum_list xs)"
proof (induction xs arbitrary: c)
  case Nil
  then show ?case by simp
next
  case (Cons x xs)
  then show ?case by (cases c) simp_all
qed

lemma assignLoop_ok:
  assumes "0 < k" "k \<le> length centers"
  shows "length sizes0 = k \<Longrightarrow>
    \<exists>as sizes. assignLoop pixels centers k sizes0 = Inr (as, sizes) \<and>
       list_all2 (\<lambda>p a. isFirstMin (\<lambda>j. colorDistanceSq p (centers ! j)) k a) pixels as \<and>
       length sizes = k \<and>
       (\<forall>c<k. sizes ! c = sizes0 ! c + count_list as c) \<and>
       sum_list sizes = sum_list sizes0 + length pixels"
proof (induction pixels arbitrary: sizes0)
  case Nil
  then show ?case by simp
next
  case (Cons pixel rest)
  obtain a where a: "nearest pixel centers k 0 None 0 = Inr a"
    "isFirstMin (\<lambda>j. colorDistanceSq pixel (centers ! j)) k a"
    using nearest_firstMin [OF assms] by blast
  have ak: "a < k" using a(2) by (simp add: isFirstMin_def)
  let ?s1 = "sizes0[a := sizes0 ! a + 1]"
  have "length ?s1 = k" using Cons.prems by simp
  from Cons.IH [OF this] obtain as sizes where
    r: "assignLoop rest centers k ?s1 = Inr (as, sizes)"
       "list_all2 (\<lambda>p a. isFirstMin (\<lambda>j. colorDistanceSq p (centers ! j)) k a) rest as"
       "length sizes = k"
       "\<forall>c<k. sizes ! c = ?s1 ! c + count_list as c"
       "sum_list sizes = sum_list ?s1 + length rest" by blast
  have run: "assignLoop (pixel # rest) centers k sizes0 = Inr (a # as, sizes)"
    using a(1) ak Cons.prems r(1) by simp
  have cnt: "\<forall>c<k. sizes ! c = sizes0 ! c + count_list (a # as) c"
    using r(4) ak Cons.prems by (auto simp: nth_list_update)
  have sm: "sum_list sizes = sum_list sizes0 + length (pixel # rest)"
    using r(5) ak Cons.prems by (simp add: sum_list_incr)
  show ?case using run a(2) r(2,3) cnt sm by simp
qed

lemma assignPixelsToCenters_ok:
  assumes "centers \<noteq> []"
  shows "\<exists>as sizes. assignPixelsToCenters pixels centers (int (length centers)) = Inr (as, sizes) \<and>
       list_all2 (\<lambda>p a. isFirstMin (\<lambda>j. colorDistanceSq p (centers ! j)) (length centers) a) pixels as \<and>
       length sizes = length centers \<and>
       (\<forall>c<length centers. sizes ! c = count_list as c) \<and>
       sum_list sizes = length pixels"
proof -
  have k: "0 < length centers" using assms by simp
  have "length (replicate (length centers) (0::nat)) = length centers" by simp
  from assignLoop_ok [OF k le_refl this, of pixels] obtain as sizes where
    r: "assignLoop pixels centers (length centers) (replicate (length centers) 0) = Inr (as, sizes)"
       "list_all2 (\<lambda>p a. isFirstMin (\<lambda>j. colorDistanceSq p (centers ! j)) (length centers) a) pixels as"
       "length sizes = length centers"
       "\<forall>c<length centers. sizes ! c = replicate (length centers) 0 ! c + count_list as c"
       "sum_list sizes = sum_list (replicate (length centers) (0::nat)) + length pixels" by blast
  have "assignPixelsToCenters pixels centers (int (length centers)) = Inr (as, sizes)"
    using r(1) by (simp add: assignPixelsToCenters_def)
  moreover have "\<forall>c<length centers. sizes ! c = count_list as c" using r(4) by simp
  moreover have "sum_list sizes = length pixels" using r(5) by simp
  ultimately show ?thesis using r(2,3) by blast
qed


section \<open>The Update step\<close>

lemma addColor_assoc: "addColor (addColor a b) c = addColor a (addColor b c)"
  by (cases a; cases b; cases c) simp

lemma addColor_commute: "addColor a b = addColor b a"
  by (cases a; cases b) simp

lemma addColor_zero [simp]: "addColor (0, 0, 0) a = a" "addColor a (0, 0, 0) = a"
  by (cases a; simp)+

lemma members_Nil [simp]: "members [] as c = []"
  by (simp add: members_def)

lemma members_Cons:
  "members (p # ps) (a # as) c = (if a = c then p # members ps as c else members ps as c)"
  by (simp add: members_def)

lemma length_members:
  "length as = length pixels \<Longrightarrow> length (members pixels as c) = count_list as c"
proof (induction pixels arbitrary: as)
  case Nil
  then show ?case by simp
next
  case (Cons p ps)
  then obtain a as' where as: "as = a # as'" by (cases as) auto
  with Cons show ?case by (simp add: members_Cons)
qed

lemma set_members: "set (members pixels as c) \<subseteq> set pixels"
  unfolding members_def by (auto dest: set_zip_leftD)

lemma sumLoop_ok:
  "length as = length pixels \<Longrightarrow> \<forall>a \<in> set as. a < length acc \<Longrightarrow>
   \<exists>res. sumLoop pixels as acc = Inr res \<and> length res = length acc \<and>
     (\<forall>c<length acc. res ! c = addColor (acc ! c) (channelSums (members pixels as c)))"
proof (induction pixels arbitrary: as acc)
  case Nil
  then show ?case by simp
next
  case (Cons p ps)
  then obtain a as' where as: "as = a # as'" by (cases as) auto
  obtain r g b where p: "p = (r, g, b)" by (cases p) auto
  have a: "a < length acc" using Cons.prems(2) as by simp
  let ?acc = "acc[a := addColor (acc ! a) p]"
  have step: "sumLoop (p # ps) as acc = sumLoop ps as' ?acc"
    using a by (cases "acc ! a") (simp add: as p)
  have "length as' = length ps" "\<forall>x \<in> set as'. x < length ?acc"
    using Cons.prems as by simp_all
  from Cons.IH [OF this] obtain res where
    res: "sumLoop ps as' ?acc = Inr res" "length res = length ?acc"
         "\<forall>c<length ?acc. res ! c = addColor (?acc ! c) (channelSums (members ps as' c))"
    by blast
  have "\<forall>c<length acc. res ! c = addColor (acc ! c) (channelSums (members (p # ps) as c))"
  proof (intro allI impI)
    fix c assume c: "c < length acc"
    then have "res ! c = addColor (?acc ! c) (channelSums (members ps as' c))"
      using res(3) by simp
    then show "res ! c = addColor (acc ! c) (channelSums (members (p # ps) as c))"
      using c a
      by (cases "a = c")
        (simp_all add: as members_Cons addColor_assoc addColor_commute [of p])
  qed
  then show ?case using step res(1,2) by simp
qed

lemma mapSums_ok:
  "i + length acc \<le> length oldCenters \<Longrightarrow>
   \<exists>cs. mapSums acc i clusterSizes oldCenters = Inr cs \<and> length cs = length acc \<and>
     (\<forall>j<length acc. newCenter (acc ! j) (i + j) clusterSizes oldCenters = Inr (cs ! j))"
proof (induction acc arbitrary: i)
  case Nil
  then show ?case by simp
next
  case (Cons s rest)
  have i: "i < length oldCenters" using Cons.prems by simp
  obtain c where c: "newCenter s i clusterSizes oldCenters = Inr c"
  proof (cases "i < length clusterSizes \<and> clusterSizes ! i > 0")
    case True
    then show ?thesis using that by (cases s) (simp add: newCenter_def)
  next
    case False
    then have "newCenter s i clusterSizes oldCenters = Inr (oldCenters ! i)"
      using i unfolding newCenter_def by (simp only: if_False if_True)
    then show ?thesis using that by blast
  qed
  have "Suc i + length rest \<le> length oldCenters" using Cons.prems by simp
  from Cons.IH [OF this] obtain cs where
    cs: "mapSums rest (Suc i) clusterSizes oldCenters = Inr cs" "length cs = length rest"
        "\<forall>j<length rest. newCenter (rest ! j) (Suc i + j) clusterSizes oldCenters = Inr (cs ! j)"
    by blast
  have "\<forall>j<length (s # rest).
          newCenter ((s # rest) ! j) (i + j) clusterSizes oldCenters = Inr ((c # cs) ! j)"
  proof (intro allI impI)
    fix j assume "j < length (s # rest)"
    then show "newCenter ((s # rest) ! j) (i + j) clusterSizes oldCenters = Inr ((c # cs) ! j)"
      using c cs(3) by (cases j) simp_all
  qed
  then show ?case using c cs(1,2) by simp
qed

lemma updateCenters_ok:
  assumes "length as = length pixels" "\<forall>a \<in> set as. a < k" "k \<le> length oldCenters"
  shows "\<exists>cs. updateCenters pixels as clusterSizes oldCenters (int k) = Inr cs \<and> length cs = k \<and>
     (\<forall>i<k. cs ! i =
        (if i < length clusterSizes \<and> clusterSizes ! i > 0
         then scaledMean (channelSums (members pixels as i)) (clusterSizes ! i)
         else oldCenters ! i))"
proof -
  let ?z = "replicate k ((0, 0, 0) :: color)"
  have "\<forall>a \<in> set as. a < length ?z" using assms(2) by simp
  from sumLoop_ok [OF assms(1) this] obtain acc where
    acc: "sumLoop pixels as ?z = Inr acc" "length acc = k"
         "\<forall>c<k. acc ! c = channelSums (members pixels as c)"
    by auto
  have "0 + length acc \<le> length oldCenters" using acc(2) assms(3) by simp
  from mapSums_ok [OF this, of clusterSizes] obtain cs where
    cs: "mapSums acc 0 clusterSizes oldCenters = Inr cs" "length cs = length acc"
        "\<forall>j<length acc. newCenter (acc ! j) (0 + j) clusterSizes oldCenters = Inr (cs ! j)"
    by blast
  have run: "updateCenters pixels as clusterSizes oldCenters (int k) = Inr cs"
    using acc(1) cs(1) by (simp add: updateCenters_def)
  have "\<forall>i<k. cs ! i =
        (if i < length clusterSizes \<and> clusterSizes ! i > 0
         then scaledMean (channelSums (members pixels as i)) (clusterSizes ! i)
         else oldCenters ! i)"
  proof (intro allI impI)
    fix i assume i: "i < k"
    then have "newCenter (channelSums (members pixels as i)) i clusterSizes oldCenters = Inr (cs ! i)"
      using cs(3) acc(2,3) by simp
    then show "cs ! i =
        (if i < length clusterSizes \<and> clusterSizes ! i > 0
         then scaledMean (channelSums (members pixels as i)) (clusterSizes ! i)
         else oldCenters ! i)"
      using i assms(3)
      by (cases "channelSums (members pixels as i)")
        (auto simp: newCenter_def scaledMean_def split: if_splits)
  qed
  then show ?thesis using run cs(2) acc(2) by simp
qed

section \<open>One round keeps the centres well formed\<close>

lemma mathRound_bounds:
  assumes "0 \<le> s" "s \<le> 255 * int n" "0 < n"
  shows "validChannel (mathRound (of_int s / of_nat n))"
proof -
  have n: "(0::rat) < of_nat n" using assms(3) by simp
  have "(0::rat) \<le> of_int s / of_nat n" using assms(1) n by simp
  then have lo: "0 \<le> mathRound (of_int s / of_nat n)"
    by (simp add: mathRound_def)
  have "(of_int s :: rat) \<le> of_int (255 * int n)" using assms(2) by (simp only: of_int_le_iff)
  then have "(of_int s :: rat) \<le> 255 * of_nat n" by simp
  then have "(of_int s :: rat) / of_nat n \<le> 255" using n by (simp add: pos_divide_le_eq)
  then have "(of_int s :: rat) / of_nat n + 1 / 2 < of_int 256" by simp
  then have "mathRound (of_int s / of_nat n) < 256"
    unfolding mathRound_def by (simp only: floor_less_iff)
  with lo show ?thesis by (simp add: validChannel_def)
qed

lemma channelSums_bounds:
  "\<forall>p \<in> set ps. validColor p \<Longrightarrow> channelSums ps = (sr, sg, sb) \<Longrightarrow>
   0 \<le> sr \<and> sr \<le> 255 * int (length ps) \<and> 0 \<le> sg \<and> sg \<le> 255 * int (length ps) \<and>
   0 \<le> sb \<and> sb \<le> 255 * int (length ps)"
proof (induction ps arbitrary: sr sg sb)
  case Nil
  then show ?case by simp
next
  case (Cons p ps)
  obtain r g b where p: "p = (r, g, b)" by (cases p) auto
  obtain tr tg tb where t: "channelSums ps = (tr, tg, tb)" by (cases "channelSums ps") auto
  have ih: "0 \<le> tr \<and> tr \<le> 255 * int (length ps) \<and> 0 \<le> tg \<and> tg \<le> 255 * int (length ps) \<and>
   0 \<le> tb \<and> tb \<le> 255 * int (length ps)"
    using Cons.IH [OF _ t] Cons.prems(1) by simp
  have v: "validChannel r" "validChannel g" "validChannel b"
    using Cons.prems(1) p by simp_all
  have "sr = tr + r" "sg = tg + g" "sb = tb + b" using Cons.prems(2) t p by simp_all
  then show ?case using ih v by (simp add: validChannel_def)
qed

lemma scaledMean_valid:
  assumes "\<forall>p \<in> set ps. validColor p" "ps \<noteq> []"
  shows "validColor (scaledMean (channelSums ps) (length ps))"
proof -
  obtain sr sg sb where s: "channelSums ps = (sr, sg, sb)" by (cases "channelSums ps") auto
  have n: "0 < length ps" using assms(2) by simp
  note b = channelSums_bounds [OF assms(1) s]
  show ?thesis
    using b n by (simp add: s scaledMean_def mathRound_bounds)
qed

lemma converged_iff:
  "length cs = length ns \<Longrightarrow>
   converged cs ns = Inr (\<forall>i<length cs. colorDistanceSq (cs ! i) (ns ! i) \<le> 25)"
proof (induction cs ns rule: converged.induct)
  case (1 newCenters)
  then show ?case by simp
next
  case (2 c cs)
  then show ?case by simp
next
  case (3 c cs n ns)
  then show ?case
    by (auto simp: CONVERGE_THRESHOLD_SQ_def All_less_Suc2)
qed

lemma round_ok:
  assumes "centers \<noteq> []"
  shows "\<exists>as sizes cs stop.
     assignPixelsToCenters pixels centers (int (length centers)) = Inr (as, sizes) \<and>
     updateCenters pixels as sizes centers (int (length centers)) = Inr cs \<and>
     converged centers cs = Inr stop \<and>
     length cs = length centers \<and>
     ((\<forall>p \<in> set pixels. validColor p) \<and> (\<forall>c \<in> set centers. validColor c)
        \<longrightarrow> (\<forall>c \<in> set cs. validColor c)) \<and>
     length sizes = length centers \<and> sum_list sizes = length pixels"
proof -
  let ?k = "length centers"
  from assignPixelsToCenters_ok [OF assms(1), of pixels] obtain as sizes where
    a: "assignPixelsToCenters pixels centers (int ?k) = Inr (as, sizes)"
       "list_all2 (\<lambda>p a. isFirstMin (\<lambda>j. colorDistanceSq p (centers ! j)) ?k a) pixels as"
       "length sizes = ?k" "\<forall>c<?k. sizes ! c = count_list as c"
       "sum_list sizes = length pixels" by blast
  have len: "length as = length pixels" using a(2) by (simp add: list_all2_lengthD)
  have lt: "\<forall>x \<in> set as. x < ?k"
    using a(2) by (auto simp: list_all2_conv_all_nth in_set_conv_nth isFirstMin_def len)
  from updateCenters_ok [OF len lt le_refl, of sizes] obtain cs where
    u: "updateCenters pixels as sizes centers (int ?k) = Inr cs" "length cs = ?k"
       "\<forall>i<?k. cs ! i =
          (if i < length sizes \<and> sizes ! i > 0
           then scaledMean (channelSums (members pixels as i)) (sizes ! i)
           else centers ! i)" by blast
  obtain stop where st: "converged centers cs = Inr stop"
    using converged_iff [of centers cs] u(2) by simp
  have "\<forall>c \<in> set cs. validColor c"
    if px: "\<forall>p \<in> set pixels. validColor p" and ct: "\<forall>c \<in> set centers. validColor c"
  proof
    fix c assume "c \<in> set cs"
    then obtain i where i: "i < ?k" "c = cs ! i" using u(2) by (auto simp: in_set_conv_nth)
    show "validColor c"
    proof (cases "sizes ! i > 0")
      case True
      let ?ms = "members pixels as i"
      have n: "sizes ! i = length ?ms" using a(4) i(1) len by (simp add: length_members)
      then have ne: "?ms \<noteq> []" using True by auto
      have "\<forall>p \<in> set ?ms. validColor p" using set_members px by blast
      from scaledMean_valid [OF this ne] show ?thesis using u(3) i True a(3) n by simp
    next
      case False
      then have "c = centers ! i" using u(3) i by simp
      then show ?thesis using ct i(1) by simp
    qed
  qed
  then show ?thesis using a(1,3,5) u(1,2) st by blast
qed

section \<open>The convergence loop\<close>

lemma convergedAt_Suc:
  assumes "assignPixelsToCenters pixels centers k = Inr (as, sizes')"
    and "updateCenters pixels as sizes' centers k = Inr cs"
  shows "convergedAt pixels k centers sizes (Suc j) = convergedAt pixels k cs sizes' j"
  using assms by (simp add: convergedAt_def)

lemma convergedAt_0:
  assumes "assignPixelsToCenters pixels centers k = Inr (as, sizes')"
    and "updateCenters pixels as sizes' centers k = Inr cs"
  shows "convergedAt pixels k centers sizes 0 = (converged centers cs = Inr True)"
  using assms by (simp add: convergedAt_def)

lemma iterate_ok:
  "centers \<noteq> [] \<Longrightarrow>
    \<exists>n fc fs. iterate m pixels (int (length centers)) centers sizes r = Inr (fc, fs, r + n) \<and>
      n \<le> m \<and> (0 < m \<longrightarrow> 0 < n) \<and>
      roundsFrom n pixels (int (length centers)) centers sizes = Inr (fc, fs) \<and>
      (\<forall>j. Suc j < n \<longrightarrow> \<not> convergedAt pixels (int (length centers)) centers sizes j) \<and>
      (n < m \<longrightarrow> convergedAt pixels (int (length centers)) centers sizes (n - 1)) \<and>
      length fc = length centers \<and>
      ((\<forall>p \<in> set pixels. validColor p) \<and> (\<forall>c \<in> set centers. validColor c)
         \<longrightarrow> (\<forall>c \<in> set fc. validColor c)) \<and>
      (0 < n \<longrightarrow> length fs = length centers \<and> sum_list fs = length pixels)"
proof (induction m arbitrary: centers sizes r)
  case 0
  then show ?case by simp
next
  case (Suc m)
  let ?k = "int (length centers)"
  from round_ok [OF Suc.prems(1), of pixels] obtain as sizes' cs stop where
    rd: "assignPixelsToCenters pixels centers ?k = Inr (as, sizes')"
        "updateCenters pixels as sizes' centers ?k = Inr cs"
        "converged centers cs = Inr stop"
        "length cs = length centers"
        "(\<forall>p \<in> set pixels. validColor p) \<and> (\<forall>c \<in> set centers. validColor c)
           \<longrightarrow> (\<forall>c \<in> set cs. validColor c)"
        "length sizes' = length centers" "sum_list sizes' = length pixels" by blast
  show ?case
  proof (cases stop)
    case True
    have run: "iterate (Suc m) pixels ?k centers sizes r = Inr (cs, sizes', r + 1)"
      using rd(1,2,3) True by simp
    have rf: "roundsFrom 1 pixels ?k centers sizes = Inr (cs, sizes')"
      using rd(1,2) by simp
    have c0: "convergedAt pixels ?k centers sizes (1 - 1)"
      using convergedAt_0 [OF rd(1,2)] rd(3) True by simp
    have main: "iterate (Suc m) pixels ?k centers sizes r = Inr (cs, sizes', r + 1) \<and>
      1 \<le> Suc m \<and> (0 < Suc m \<longrightarrow> 0 < (1::nat)) \<and>
      roundsFrom 1 pixels ?k centers sizes = Inr (cs, sizes') \<and>
      (\<forall>j. Suc j < 1 \<longrightarrow> \<not> convergedAt pixels ?k centers sizes j) \<and>
      (1 < Suc m \<longrightarrow> convergedAt pixels ?k centers sizes (1 - 1)) \<and>
      length cs = length centers"
      using run rf c0 rd(4) by simp
    have szs: "0 < (1::nat) \<longrightarrow> length sizes' = length centers \<and> sum_list sizes' = length pixels"
      using rd(6,7) by simp
    show ?thesis
      apply (rule exI [of _ 1], rule exI [of _ cs], rule exI [of _ sizes'])
      using main rd(5) szs by blast
  next
    case False
    have cne: "cs \<noteq> []" using rd(4) Suc.prems(1) by auto
    from Suc.IH [OF cne, of sizes' "Suc r"] obtain n fc fs where
      ih: "iterate m pixels (int (length cs)) cs sizes' (Suc r) = Inr (fc, fs, Suc r + n)"
          "n \<le> m" "0 < m \<longrightarrow> 0 < n"
          "roundsFrom n pixels (int (length cs)) cs sizes' = Inr (fc, fs)"
          "\<forall>j. Suc j < n \<longrightarrow> \<not> convergedAt pixels (int (length cs)) cs sizes' j"
          "n < m \<longrightarrow> convergedAt pixels (int (length cs)) cs sizes' (n - 1)"
          "length fc = length cs"
          "(\<forall>p \<in> set pixels. validColor p) \<and> (\<forall>c \<in> set cs. validColor c)
             \<longrightarrow> (\<forall>c \<in> set fc. validColor c)"
          "0 < n \<longrightarrow> length fs = length cs \<and> sum_list fs = length pixels" by blast
    have k: "int (length cs) = ?k" using rd(4) by simp
    have run: "iterate (Suc m) pixels ?k centers sizes r = Inr (fc, fs, r + Suc n)"
      using rd(1,2,3) False ih(1) k by simp
    have rf: "roundsFrom (Suc n) pixels ?k centers sizes = Inr (fc, fs)"
      using rd(1,2) ih(4) k by simp
    have n0: "\<not> convergedAt pixels ?k centers sizes 0"
      using convergedAt_0 [OF rd(1,2)] rd(3) False by simp
    have nc: "\<forall>j. Suc j < Suc n \<longrightarrow> \<not> convergedAt pixels ?k centers sizes j"
    proof (intro allI impI)
      fix j assume j: "Suc j < Suc n"
      show "\<not> convergedAt pixels ?k centers sizes j"
      proof (cases j)
        case 0
        then show ?thesis using n0 by simp
      next
        case (Suc j')
        then have "\<not> convergedAt pixels ?k cs sizes' j'" using ih(5) j k by simp
        then show ?thesis using convergedAt_Suc [OF rd(1,2)] Suc by simp
      qed
    qed
    have cv: "Suc n < Suc m \<longrightarrow> convergedAt pixels ?k centers sizes (Suc n - 1)"
    proof
      assume lt: "Suc n < Suc m"
      then have "0 < n" "n < m" using ih(3) by auto
      then have "convergedAt pixels ?k cs sizes' (n - 1)" "Suc (n - 1) = n"
        using ih(6) k by simp_all
      then show "convergedAt pixels ?k centers sizes (Suc n - 1)"
        using convergedAt_Suc [OF rd(1,2), of sizes "n - 1"] by simp
    qed
    have szs: "length fs = length centers \<and> sum_list fs = length pixels"
    proof (cases "0 < n")
      case True
      then show ?thesis using ih(9) rd(4) by simp
    next
      case False
      then have "fs = sizes'" using ih(4) by simp
      then show ?thesis using rd(6,7) by simp
    qed
    have val: "(\<forall>p \<in> set pixels. validColor p) \<and> (\<forall>c \<in> set centers. validColor c)
         \<longrightarrow> (\<forall>c \<in> set fc. validColor c)"
      using ih(8) rd(5) by blast
    have main: "iterate (Suc m) pixels ?k centers sizes r = Inr (fc, fs, r + Suc n) \<and>
      Suc n \<le> Suc m \<and> (0 < Suc m \<longrightarrow> 0 < Suc n) \<and>
      roundsFrom (Suc n) pixels ?k centers sizes = Inr (fc, fs) \<and>
      (\<forall>j. Suc j < Suc n \<longrightarrow> \<not> convergedAt pixels ?k centers sizes j) \<and>
      (Suc n < Suc m \<longrightarrow> convergedAt pixels ?k centers sizes (Suc n - 1)) \<and>
      length fc = length centers"
      using run rf nc cv ih(2,7) rd(4) by simp
    show ?thesis
      apply (rule exI [of _ "Suc n"], rule exI [of _ fc], rule exI [of _ fs])
      using main val szs by blast
  qed
qed

section \<open>Rounding to a double\<close>













section \<open>Ranking\<close>

lemma length_insertSorted [simp]: "length (insertSorted cmp x ys) = Suc (length ys)"
  by (induction ys) simp_all

lemma length_sortBy [simp]: "length (sortBy cmp xs) = length xs"
  by (induction xs) simp_all

lemma set_insertSorted [simp]: "set (insertSorted cmp x ys) = insert x (set ys)"
  by (induction ys) auto

lemma set_sortBy [simp]: "set (sortBy cmp xs) = set xs"
  by (induction xs) simp_all






lemma length_rankClusters [simp]: "length (rankClusters centers sizes n) = length centers"
  by (simp add: rankClusters_def)

lemma map_fst_entries:
  "map fst (map (\<lambda>(color, i). (color, f i)) (zip centers [0 ..< length centers])) = centers"
proof -
  have "map fst (map (\<lambda>(color, i). (color, f i)) (zip centers [0 ..< length centers]))
        = map fst (zip centers [0 ..< length centers])"
    by (simp add: case_prod_unfold comp_def)
  then show ?thesis by simp
qed

lemma fst_set_rankClusters: "fst ` set (rankClusters centers sizes n) = set centers"
proof -
  have "fst ` set (rankClusters centers sizes n) =
        set (map fst (map (\<lambda>(color, i). (color, percentageAt sizes n i))
          (zip centers [0 ..< length centers])))"
    unfolding rankClusters_def set_sortBy set_map ..
  then show ?thesis by (simp only: map_fst_entries)
qed


section \<open>The strings of a ColorResult\<close>













section \<open>Pixel sampling\<close>

lemma samplePixels_valid: "\<forall>p \<in> set (samplePixels data). validColor p"
proof (induction data rule: samplePixels.induct)
  case (1 r g b a rest)
  have "\<And>w :: 8 word. validChannel (uint w)"
  proof -
    fix w :: "8 word"
    have "uint w < 2 ^ LENGTH(8)" by (rule uint_lt2p)
    then show "validChannel (uint w)" by (simp add: validChannel_def)
  qed
  then show ?case using 1 by simp
qed simp_all

lemma samplePixels_transparent:
  "\<forall>i. 4 * i + 3 < length data \<longrightarrow> data ! (4 * i + 3) = 0 \<Longrightarrow> samplePixels data = []"
proof (induction data rule: samplePixels.induct)
  case (1 r g b a rest)
  have "a = 0" using "1.prems" [rule_format, of 0] by simp
  moreover have "\<forall>i. 4 * i + 3 < length rest \<longrightarrow> rest ! (4 * i + 3) = 0"
  proof (intro allI impI)
    fix i assume "4 * i + 3 < length rest"
    then have "4 * Suc i + 3 < length (r # g # b # a # rest)" by simp
    then have "(r # g # b # a # rest) ! (4 * Suc i + 3) = 0"
      using "1.prems" by blast
    moreover have "4 * Suc i + 3 = Suc (Suc (Suc (Suc (4 * i + 3))))" by simp
    ultimately show "rest ! (4 * i + 3) = 0" by (simp only: nth_Cons_Suc)
  qed
  ultimately show ?case using "1.IH" by simp
qed simp_all

section \<open>A whole run of kMeansClustering\<close>

lemma kMeansClustering_run:
  assumes "validDraws rnd" "pixels \<noteq> []" "1 \<le> k"
  shows "\<exists>centers0 n fc fs.
     kMeansPlusPlusInit rnd pixels (min k (int (length pixels))) = Inr centers0 \<and>
     length centers0 = nat (min k (int (length pixels))) \<and>
     set centers0 \<subseteq> set pixels \<and>
     iterate (nat maxIterations) pixels (min k (int (length pixels))) centers0 [] 0 = Inr (fc, fs, n) \<and>
     n \<le> nat maxIterations \<and> (0 < maxIterations \<longrightarrow> 0 < n) \<and>
     roundsFrom n pixels (min k (int (length pixels))) centers0 [] = Inr (fc, fs) \<and>
     (\<forall>j. Suc j < n \<longrightarrow> \<not> convergedAt pixels (min k (int (length pixels))) centers0 [] j) \<and>
     (n < nat maxIterations \<longrightarrow> convergedAt pixels (min k (int (length pixels))) centers0 [] (n - 1)) \<and>
     length fc = length centers0 \<and>
     ((\<forall>p \<in> set pixels. validColor p) \<longrightarrow> (\<forall>c \<in> set fc. validColor c)) \<and>
     (0 < n \<longrightarrow> length fs = length centers0 \<and> sum_list fs = length pixels) \<and>
     kMeansClustering rnd pixels k maxIterations = Inr (rankClusters fc fs (length pixels))"
proof -
  let ?k = "min k (int (length pixels))"
  have k1: "1 \<le> ?k" using assms(2,3) by (cases pixels) simp_all
  from kMeansPlusPlusInit_ok [OF assms(1,2), of ?k] obtain cs where
    i: "kMeansPlusPlusInit rnd pixels ?k = Inr cs" "length cs = Suc (nat (?k - 1))"
       "set cs \<subseteq> set pixels" by blast
  have "Suc (nat (?k - 1)) = nat ?k" using k1 by linarith
  then have len: "length cs = nat ?k" using i(2) by simp
  have kk: "int (length cs) = ?k" using len k1 by simp
  have ne: "cs \<noteq> []" using len k1 by auto
  obtain n fc fs where
    it: "iterate (nat maxIterations) pixels (int (length cs)) cs [] 0 = Inr (fc, fs, 0 + n)"
        "n \<le> nat maxIterations" "0 < nat maxIterations \<longrightarrow> 0 < n"
        "roundsFrom n pixels (int (length cs)) cs [] = Inr (fc, fs)"
        "\<forall>j. Suc j < n \<longrightarrow> \<not> convergedAt pixels (int (length cs)) cs [] j"
        "n < nat maxIterations \<longrightarrow> convergedAt pixels (int (length cs)) cs [] (n - 1)"
        "length fc = length cs"
        "(\<forall>p \<in> set pixels. validColor p) \<and> (\<forall>c \<in> set cs. validColor c)
           \<longrightarrow> (\<forall>c \<in> set fc. validColor c)"
        "0 < n \<longrightarrow> length fs = length cs \<and> sum_list fs = length pixels"
  proof -
    from iterate_ok [OF ne, of "nat maxIterations" pixels "[]" 0]
    show ?thesis by (elim exE conjE) (rule that)
  qed
  have val: "(\<forall>p \<in> set pixels. validColor p) \<longrightarrow> (\<forall>c \<in> set fc. validColor c)"
    using it(8) i(3) by blast
  have it1: "iterate (nat maxIterations) pixels ?k cs [] 0 = Inr (fc, fs, n)"
    using it(1) kk by simp
  have run: "kMeansClustering rnd pixels k maxIterations = Inr (rankClusters fc fs (length pixels))"
    using assms(2) i(1) it1 by (simp add: kMeansClustering_def Let_def)
  have pos: "0 < maxIterations \<longrightarrow> 0 < n" using it(3) by simp
  have main: "kMeansPlusPlusInit rnd pixels ?k = Inr cs \<and>
     length cs = nat ?k \<and> set cs \<subseteq> set pixels \<and>
     iterate (nat maxIterations) pixels ?k cs [] 0 = Inr (fc, fs, n) \<and>
     n \<le> nat maxIterations \<and> (0 < maxIterations \<longrightarrow> 0 < n) \<and>
     roundsFrom n pixels ?k cs [] = Inr (fc, fs) \<and>
     (\<forall>j. Suc j < n \<longrightarrow> \<not> convergedAt pixels ?k cs [] j) \<and>
     (n < nat maxIterations \<longrightarrow> convergedAt pixels ?k cs [] (n - 1)) \<and>
     length fc = length cs"
    using i(1,3) len it1 it(2,4,5,6,7) pos kk by simp
  show ?thesis
    apply (rule exI [of _ cs], rule exI [of _ n], rule exI [of _ fc], rule exI [of _ fs])
    using main val it(9) run by blast
qed

text \<open>
  Outside the contract of the options: a negative colorCount makes \<open>new Array(k)\<close> throw
  in the first round.
\<close>

lemma negative_colorCount_throws:
  "kMeansClustering zeroDraws blackWhite (- 1) 20 = Inl RangeError"
  by code_simp

section \<open>The runs on two black and two white pixels\<close>

lemma blackWhite_rounds:
  "iterate (nat 20) blackWhite 2 [(0, 0, 0), (0, 0, 0)] [] 0
     = Inr ([(255, 255, 255), (0, 0, 0)], [2, 2], 3)"
  "iterate (nat 20) blackWhite 2 [(0, 0, 0), (255, 255, 255)] [] 0
     = Inr ([(0, 0, 0), (255, 255, 255)], [2, 2], 1)"
  "iterate (nat 20) blackWhite 2 [(255, 255, 255), (0, 0, 0)] [] 0
     = Inr ([(255, 255, 255), (0, 0, 0)], [2, 2], 1)"
  "iterate (nat 20) blackWhite 2 [(255, 255, 255), (255, 255, 255)] [] 0
     = Inr ([(0, 0, 0), (255, 255, 255)], [2, 2], 3)"
  by code_simp+

lemma blackWhite_ranked:
  "map toColorResult (rankClusters [(255, 255, 255), (0, 0, 0)] [2, 2] (length blackWhite))
     = [white50, black50]"
  "map toColorResult (rankClusters [(0, 0, 0), (255, 255, 255)] [2, 2] (length blackWhite))
     = [black50, white50]"
  by code_simp+

section \<open>The claims\<close>

text \<open>
  C1. A run of kMeansClustering on a non-empty list of pixels with channels in 0..255, with
  colorCount at least 1 and valid draws, returns normally; the list it returns has
  exactly min(colorCount, pixelCount) entries, and the three channels of every returned
  centre lie in 0..255. This holds for every maxIterations.
\<close>

theorem result_length_and_channels:
  assumes "validDraws rnd" "pixels \<noteq> []" "\<forall>p \<in> set pixels. validColor p" "1 \<le> colorCount"
  shows "\<exists>res. kMeansClustering rnd pixels colorCount maxIterations = Inr res \<and>
           length res = min (nat colorCount) (length pixels) \<and>
           (\<forall>e \<in> set res. validColor (fst e))"
proof -
  obtain centers0 :: "color list" and fc fs where
    r: "length centers0 = nat (min colorCount (int (length pixels)))"
       "length fc = length centers0"
       "(\<forall>p \<in> set pixels. validColor p) \<longrightarrow> (\<forall>c \<in> set fc. validColor c)"
       "kMeansClustering rnd pixels colorCount maxIterations = Inr (rankClusters fc fs (length pixels))"
  proof -
    from kMeansClustering_run [OF assms(1,2,4), of maxIterations]
    show ?thesis by (elim exE conjE) (rule that)
  qed
  let ?res = "rankClusters fc fs (length pixels)"
  have len: "length ?res = min (nat colorCount) (length pixels)"
    using r(1,2) assms(4) by simp
  have "\<forall>e \<in> set ?res. validColor (fst e)"
    using r(3) assms(3) fst_set_rankClusters [of fc fs "length pixels"] by blast
  then show ?thesis using r(4) len by blast
qed

text \<open>The run on two black and two white pixels with colorCount 2 is an instance.\<close>

theorem result_length_and_channels_witness:
  "validDraws zeroDraws \<and> blackWhite \<noteq> [] \<and> list_all validColor blackWhite \<and> (1::int) \<le> 2 \<and>
   (\<exists>res. kMeansClustering zeroDraws blackWhite 2 20 = Inr res \<and>
           length res = min (nat 2) (length blackWhite) \<and>
           list_all (\<lambda>e. validColor (fst e)) res)"
proof -
  have h1: "validDraws zeroDraws" by (simp add: validDraws_def validDraw_def zeroDraws_def)
  have h2: "blackWhite \<noteq> []" by (simp add: blackWhite_def)
  have h3: "\<forall>p \<in> set blackWhite. validColor p" by (simp add: blackWhite_def validChannel_def)
  have h4: "(1::int) \<le> 2" by simp
  from result_length_and_channels [OF h1 h2 h3 h4, of 20]
  show ?thesis using h1 h2 h3 by (simp add: list_all_iff)
qed

text \<open>
  C2. On an empty pixel list kMeansClustering returns the empty list, for every colorCount,
  maxIterations and draw sequence; the initializer, which comes before the loop, would
  throw on an empty list, so neither it nor the loop is entered. An image whose alpha
  bytes are all zero samples to the empty pixel list, and extractColors returns the empty
  list for it. For every pixel list, empty or not, a run with valid draws and
  colorCount at least 1 returns normally.
\<close>

theorem empty_input_and_totality:
  "kMeansClustering rnd [] colorCount maxIterations = Inr [] \<and>
   kMeansPlusPlusInit rnd [] colorCount = Inl TypeError \<and>
   ((\<forall>i. 4 * i + 3 < length data \<longrightarrow> data ! (4 * i + 3) = 0) \<longrightarrow>
      extractColors rnd data colorCount maxIterations = Inr []) \<and>
   (validDraws rnd \<and> 1 \<le> colorCount \<longrightarrow>
      (\<exists>res. kMeansClustering rnd pixels colorCount maxIterations = Inr res))"
proof (intro conjI impI)
  show "kMeansClustering rnd [] colorCount maxIterations = Inr []"
    by (simp add: kMeansClustering_def)
  show "kMeansPlusPlusInit rnd [] colorCount = Inl TypeError"
    by (simp add: kMeansPlusPlusInit_def randomPixel_def)
  show "extractColors rnd data colorCount maxIterations = Inr []"
    if "\<forall>i. 4 * i + 3 < length data \<longrightarrow> data ! (4 * i + 3) = 0"
    using samplePixels_transparent [OF that]
    by (simp add: extractColors_def kMeansClustering_def)
  show "\<exists>res. kMeansClustering rnd pixels colorCount maxIterations = Inr res"
    if h: "validDraws rnd \<and> 1 \<le> colorCount"
  proof (cases "pixels = []")
    case True
    then show ?thesis by (simp add: kMeansClustering_def)
  next
    case False
    obtain fc fs where
      "kMeansClustering rnd pixels colorCount maxIterations = Inr (rankClusters fc fs (length pixels))"
    proof -
      have v: "validDraws rnd" and c: "1 \<le> colorCount" using h by simp_all
      from kMeansClustering_run [OF v False c, of maxIterations]
      show ?thesis by (elim exE conjE) (rule that)
    qed
    then show ?thesis by blast
  qed
qed

text \<open>A two-texel transparent image and the black and white pixels are instances.\<close>

theorem empty_input_and_totality_witness:
  "validDraws zeroDraws \<and> (1::int) \<le> 2 \<and>
   kMeansClustering zeroDraws [] 2 20 = Inr [] \<and>
   extractColors zeroDraws [1, 2, 3, 0, 4, 5, 6, 0] 2 20 = Inr [] \<and>
   (\<exists>res. kMeansClustering zeroDraws blackWhite 2 20 = Inr res)"
proof -
  have h1: "validDraws zeroDraws" by (simp add: validDraws_def validDraw_def zeroDraws_def)
  have h2: "\<forall>i. 4 * i + 3 < length [1, 2, 3, 0, 4, 5, 6, 0 :: 8 word] \<longrightarrow>
              [1, 2, 3, 0, 4, 5, 6, 0 :: 8 word] ! (4 * i + 3) = 0"
  proof (intro allI impI)
    fix i :: nat assume "4 * i + 3 < length [1, 2, 3, 0, 4, 5, 6, 0 :: 8 word]"
    then have "i = 0 \<or> i = 1" by auto
    then show "[1, 2, 3, 0, 4, 5, 6, 0 :: 8 word] ! (4 * i + 3) = 0" by auto
  qed
  from empty_input_and_totality [of zeroDraws 2 20 "[1, 2, 3, 0, 4, 5, 6, 0]" blackWhite]
  show ?thesis using h1 h2 by simp
qed





text \<open>
  C5. In a run on a non-empty pixel list with valid draws, colorCount at least 1 and
  maxIterations at least 1, the loop ends normally after n rounds with
  1 <= n <= maxIterations, each round being one Assignment and one Update. No round before
  the last one ended with every centre within squared distance 25 of its predecessor; if
  n is below maxIterations the last round did. The centres and sizes the engine ranks
  are those of round n. The test of a round holds exactly when all pairs of old and new
  centres are within squared distance 25 at once.
\<close>

theorem loop_rounds_and_stop:
  assumes "validDraws rnd" "pixels \<noteq> []" "1 \<le> colorCount" "1 \<le> maxIterations"
  shows "\<exists>centers0 n fc fs.
     kMeansPlusPlusInit rnd pixels (min colorCount (int (length pixels))) = Inr centers0 \<and>
     iterate (nat maxIterations) pixels (min colorCount (int (length pixels))) centers0 [] 0
       = Inr (fc, fs, n) \<and>
     1 \<le> n \<and> int n \<le> maxIterations \<and>
     (\<forall>j. Suc j < n \<longrightarrow>
        \<not> convergedAt pixels (min colorCount (int (length pixels))) centers0 [] j) \<and>
     (int n < maxIterations \<longrightarrow>
        convergedAt pixels (min colorCount (int (length pixels))) centers0 [] (n - 1)) \<and>
     roundsFrom n pixels (min colorCount (int (length pixels))) centers0 [] = Inr (fc, fs) \<and>
     kMeansClustering rnd pixels colorCount maxIterations
       = Inr (rankClusters fc fs (length pixels)) \<and>
     (\<forall>old new. length old = length new \<longrightarrow>
        converged old new
          = Inr (\<forall>i<length old. colorDistanceSq (old ! i) (new ! i) \<le> 25))"
proof -
  let ?k = "min colorCount (int (length pixels))"
  obtain centers0 :: "color list" and n fc fs where
    r: "kMeansPlusPlusInit rnd pixels ?k = Inr centers0"
       "iterate (nat maxIterations) pixels ?k centers0 [] 0 = Inr (fc, fs, n)"
       "n \<le> nat maxIterations" "0 < maxIterations \<longrightarrow> 0 < n"
       "roundsFrom n pixels ?k centers0 [] = Inr (fc, fs)"
       "\<forall>j. Suc j < n \<longrightarrow> \<not> convergedAt pixels ?k centers0 [] j"
       "n < nat maxIterations \<longrightarrow> convergedAt pixels ?k centers0 [] (n - 1)"
       "kMeansClustering rnd pixels colorCount maxIterations = Inr (rankClusters fc fs (length pixels))"
  proof -
    from kMeansClustering_run [OF assms(1,2,3), of maxIterations]
    show ?thesis by (elim exE conjE) (rule that)
  qed
  have n1: "1 \<le> n" using r(4) assms(4) by simp
  have n2: "int n \<le> maxIterations" using r(3) assms(4) by simp
  have n3: "int n < maxIterations \<longrightarrow> convergedAt pixels ?k centers0 [] (n - 1)"
    using r(7) by simp
  have cv: "\<forall>old new. length old = length new \<longrightarrow>
        converged old new
          = Inr (\<forall>i<length old. colorDistanceSq (old ! i) (new ! i) \<le> 25)"
    using converged_iff by blast
  show ?thesis
    apply (rule exI [of _ centers0], rule exI [of _ n], rule exI [of _ fc], rule exI [of _ fs])
    using r(1,2,5,6,8) n1 n2 n3 cv by blast
qed

text \<open>
  With all draws zero both seeds are black; the loop then runs three of its twenty rounds.
\<close>

theorem loop_rounds_and_stop_witness:
  "validDraws zeroDraws \<and> blackWhite \<noteq> [] \<and> (1::int) \<le> 2 \<and> (1::int) \<le> 20 \<and>
   kMeansPlusPlusInit zeroDraws blackWhite 2 = Inr [(0, 0, 0), (0, 0, 0)] \<and>
   iterate (nat 20) blackWhite 2 [(0, 0, 0), (0, 0, 0)] [] 0
     = Inr ([(255, 255, 255), (0, 0, 0)], [2, 2], 3) \<and>
   (\<exists>centers0 n fc fs.
     kMeansPlusPlusInit zeroDraws blackWhite 2 = Inr centers0 \<and>
     iterate (nat 20) blackWhite 2 centers0 [] 0 = Inr (fc, fs, n) \<and>
     1 \<le> n \<and> int n \<le> 20 \<and>
     roundsFrom n blackWhite 2 centers0 [] = Inr (fc, fs))"
proof -
  have h1: "validDraws zeroDraws" by (simp add: validDraws_def validDraw_def zeroDraws_def)
  have h2: "blackWhite \<noteq> []" by (simp add: blackWhite_def)
  have h3: "(1::int) \<le> 2" and h4: "(1::int) \<le> 20" by simp_all
  have k: "min 2 (int (length blackWhite)) = 2" by (simp add: blackWhite_def)
  have e1: "kMeansPlusPlusInit zeroDraws blackWhite 2 = Inr [(0, 0, 0), (0, 0, 0)]"
    by code_simp
  have e2: "iterate (nat 20) blackWhite 2 [(0, 0, 0), (0, 0, 0)] [] 0
     = Inr ([(255, 255, 255), (0, 0, 0)], [2, 2], 3)"
    by code_simp
  from loop_rounds_and_stop [OF h1 h2 h3 h4]
  have "\<exists>centers0 n fc fs.
     kMeansPlusPlusInit zeroDraws blackWhite 2 = Inr centers0 \<and>
     iterate (nat 20) blackWhite 2 centers0 [] 0 = Inr (fc, fs, n) \<and>
     1 \<le> n \<and> int n \<le> 20 \<and>
     roundsFrom n blackWhite 2 centers0 [] = Inr (fc, fs)"
    unfolding k by blast
  then show ?thesis using h1 h2 e1 e2 by simp
qed





text \<open>
  C8, as stated, fails: the engine clamps colorCount to the number of pixels, not to the
  number of distinct pixel values. Twelve pixels of three distinct values with colorCount
  10 give ten entries.
\<close>

theorem three_distinct_values_counterexample:
  "card (set threeTones) = 3 \<and>
   map_sum id length (kMeansClustering halfDraws threeTones 10 20) = Inr 10"
  by code_simp

text \<open>
  C8, amended. For every pixel list with exactly 3 distinct pixel values, a run with
  colorCount 10 and valid draws returns min(10, pixelCount) entries; that is 3 entries
  exactly when the list has exactly 3 pixels.
\<close>

theorem three_distinct_values:
  assumes "validDraws rnd" "card (set pixels) = 3"
  shows "\<exists>res. kMeansClustering rnd pixels 10 maxIterations = Inr res \<and>
           length res = min 10 (length pixels) \<and>
           (length res = 3) = (length pixels = 3)"
proof -
  have ne: "pixels \<noteq> []" using assms(2) by auto
  have ge: "3 \<le> length pixels" using card_length [of pixels] assms(2) by simp
  obtain centers0 :: "color list" and fc fs where
    r: "length centers0 = nat (min 10 (int (length pixels)))"
       "length fc = length centers0"
       "kMeansClustering rnd pixels 10 maxIterations = Inr (rankClusters fc fs (length pixels))"
  proof -
    have "(1::int) \<le> 10" by simp
    from kMeansClustering_run [OF assms(1) ne this, of maxIterations]
    show ?thesis by (elim exE conjE) (rule that)
  qed
  let ?res = "rankClusters fc fs (length pixels)"
  have len: "length ?res = min 10 (length pixels)" using r(1,2) by simp
  then have "(length ?res = 3) = (length pixels = 3)" using ge by linarith
  then show ?thesis using r(3) len by blast
qed

text \<open>Three pixels of three values are an instance: three entries.\<close>

theorem three_distinct_values_witness:
  "validDraws halfDraws \<and> card (set threePixels) = 3 \<and>
   (\<exists>res. kMeansClustering halfDraws threePixels 10 20 = Inr res \<and> length res = 3)"
proof -
  have h1: "validDraws halfDraws" by (simp add: validDraws_def validDraw_def halfDraws_def)
  have h2: "card (set threePixels) = 3" by code_simp
  have l: "length threePixels = 3" by (simp add: threePixels_def)
  from three_distinct_values [OF h1 h2, of 20]
  show ?thesis using h1 h2 l by auto
qed

text \<open>
  C9. For the pixels (0,0,0), (0,0,0), (255,255,255), (255,255,255) with colorCount 2 and
  maxIterations 20, and for every sequence of valid draws: the run returns normally,
  the loop stops before the twentieth round, the final centres are (0,0,0) and
  (255,255,255) in one order or the other, and the two results are black and white, each
  with the percentage string "50.0". (The seeds themselves may coincide, for a draw of
  exactly 0; the loop separates them.)
\<close>

theorem black_white_halves:
  assumes "validDraws rnd"
  shows "\<exists>centers0 fc fs n.
     kMeansPlusPlusInit rnd blackWhite 2 = Inr centers0 \<and>
     iterate (nat 20) blackWhite 2 centers0 [] 0 = Inr (fc, fs, n) \<and> n < 20 \<and>
     (fc = [(0, 0, 0), (255, 255, 255)] \<or> fc = [(255, 255, 255), (0, 0, 0)]) \<and>
     kMeansClustering rnd blackWhite 2 20 = Inr (rankClusters fc fs (length blackWhite)) \<and>
     (map toColorResult (rankClusters fc fs (length blackWhite)) = [black50, white50] \<or>
      map toColorResult (rankClusters fc fs (length blackWhite)) = [white50, black50])"
proof -
  have ne: "blackWhite \<noteq> []" by (simp add: blackWhite_def)
  from kMeansPlusPlusInit_ok [OF assms ne, of 2] obtain cs where
    cs: "kMeansPlusPlusInit rnd blackWhite 2 = Inr cs" "length cs = 2"
        "set cs \<subseteq> set blackWhite" by auto
  obtain x y where xy: "cs = [x, y]"
    using cs(2) by (cases cs; cases "tl cs") auto
  have mem: "x = (0, 0, 0) \<or> x = (255, 255, 255)" "y = (0, 0, 0) \<or> y = (255, 255, 255)"
    using cs(3) xy by (auto simp: blackWhite_def)
  have k: "min 2 (int (length blackWhite)) = 2" by (simp add: blackWhite_def)
  have run: "kMeansClustering rnd blackWhite 2 20 = Inr (rankClusters fc fs (length blackWhite))"
    if "iterate (nat 20) blackWhite 2 cs [] 0 = Inr (fc, fs, n)" for fc fs n
    using that cs(1) ne k by (simp add: kMeansClustering_def)
  consider "cs = [(0, 0, 0), (0, 0, 0)]" | "cs = [(0, 0, 0), (255, 255, 255)]"
    | "cs = [(255, 255, 255), (0, 0, 0)]" | "cs = [(255, 255, 255), (255, 255, 255)]"
    using mem xy by blast
  then show ?thesis
  proof cases
    case 1
    have it: "iterate (nat 20) blackWhite 2 cs [] 0 = Inr ([(255, 255, 255), (0, 0, 0)], [2, 2], 3)"
      unfolding 1 by (rule blackWhite_rounds(1))
    show ?thesis
      apply (rule exI [of _ cs], rule exI [of _ "[(255, 255, 255), (0, 0, 0)]"],
             rule exI [of _ "[2, 2]"], rule exI [of _ 3])
      using cs(1) it run [OF it] blackWhite_ranked(1) by simp
  next
    case 2
    have it: "iterate (nat 20) blackWhite 2 cs [] 0 = Inr ([(0, 0, 0), (255, 255, 255)], [2, 2], 1)"
      unfolding 2 by (rule blackWhite_rounds(2))
    show ?thesis
      apply (rule exI [of _ cs], rule exI [of _ "[(0, 0, 0), (255, 255, 255)]"],
             rule exI [of _ "[2, 2]"], rule exI [of _ 1])
      using cs(1) it run [OF it] blackWhite_ranked(2) by simp
  next
    case 3
    have it: "iterate (nat 20) blackWhite 2 cs [] 0 = Inr ([(255, 255, 255), (0, 0, 0)], [2, 2], 1)"
      unfolding 3 by (rule blackWhite_rounds(3))
    show ?thesis
      apply (rule exI [of _ cs], rule exI [of _ "[(255, 255, 255), (0, 0, 0)]"],
             rule exI [of _ "[2, 2]"], rule exI [of _ 1])
      using cs(1) it run [OF it] blackWhite_ranked(1) by simp
  next
    case 4
    have it: "iterate (nat 20) blackWhite 2 cs [] 0 = Inr ([(0, 0, 0), (255, 255, 255)], [2, 2], 3)"
      unfolding 4 by (rule blackWhite_rounds(4))
    show ?thesis
      apply (rule exI [of _ cs], rule exI [of _ "[(0, 0, 0), (255, 255, 255)]"],
             rule exI [of _ "[2, 2]"], rule exI [of _ 3])
      using cs(1) it run [OF it] blackWhite_ranked(2) by simp
  qed
qed

text \<open>With all draws zero both seeds are black, and the result is white, then black.\<close>

theorem black_white_halves_witness:
  "validDraws zeroDraws \<and>
   map_sum id (map toColorResult) (kMeansClustering zeroDraws blackWhite 2 20)
     = Inr [white50, black50]"
proof -
  have h: "validDraws zeroDraws" by (simp add: validDraws_def validDraw_def zeroDraws_def)
  have e: "kMeansPlusPlusInit zeroDraws blackWhite 2 = Inr [(0, 0, 0), (0, 0, 0)]"
    by code_simp
  from black_white_halves [OF h] obtain centers0 fc fs n where
    r: "kMeansPlusPlusInit zeroDraws blackWhite 2 = Inr centers0"
       "iterate (nat 20) blackWhite 2 centers0 [] 0 = Inr (fc, fs, n)"
       "kMeansClustering zeroDraws blackWhite 2 20 = Inr (rankClusters fc fs (length blackWhite))"
    by blast
  have c: "centers0 = [(0, 0, 0), (0, 0, 0)]" using r(1) e by simp
  have "fc = [(255, 255, 255), (0, 0, 0)]" "fs = [2, 2]"
    using r(2) blackWhite_rounds(1) unfolding c by simp_all
  then show ?thesis using h r(3) blackWhite_ranked(1) by simp
qed

text \<open>
  C10. For every non-empty pixel list, every draw that lies in [0, m) for each positive
  multiplier m, and every list of weights, weightedRandomPick returns normally, and what
  it returns is an element of the pixel list. When there is one weight for each pixel (or
  fewer weights than pixels) and the total weight is positive, the drawn value is below
  the total and the subtraction loop itself returns a pixel: the statement after the loop
  is not reached. The weights need not even be non-negative for this. The draws of exact
  arithmetic, u * m for a number u in [0, 1), are such draws.
\<close>

theorem weighted_pick_total:
  assumes "pixels \<noteq> []" "validDraw d"
  shows "(\<exists>p \<in> set pixels. weightedRandomPick d pixels distances = Inr p) \<and>
     (length distances \<le> length pixels \<and> 0 < sum_list distances \<longrightarrow>
        d (of_int (sum_list distances)) < of_int (sum_list distances) \<and>
        (\<exists>p. pickLoop (d (of_int (sum_list distances))) pixels distances = Some p \<and>
             weightedRandomPick d pixels distances = Inr p)) \<and>
     (0 \<le> u \<and> u < 1 \<longrightarrow> validDraw (\<lambda>m. u * m))"
proof (intro conjI)
  show "\<exists>p \<in> set pixels. weightedRandomPick d pixels distances = Inr p"
    by (rule weightedRandomPick_mem [OF assms(2,1)])
  show "0 \<le> u \<and> u < 1 \<longrightarrow> validDraw (\<lambda>m. u * m)"
    using exact_draw_valid by blast
  show "length distances \<le> length pixels \<and> 0 < sum_list distances \<longrightarrow>
        d (of_int (sum_list distances)) < of_int (sum_list distances) \<and>
        (\<exists>p. pickLoop (d (of_int (sum_list distances))) pixels distances = Some p \<and>
             weightedRandomPick d pixels distances = Inr p)"
  proof
    assume h: "length distances \<le> length pixels \<and> 0 < sum_list distances"
    let ?t = "sum_list distances"
    let ?i = "length distances - 1"
    have ne: "distances \<noteq> []" using h by auto
    have "0 < length distances" using ne by simp
    then have i: "?i < length pixels" "?i < length distances" using h by linarith+
    have tk: "take (Suc ?i) distances = distances" using ne by simp
    have pos: "(0::rat) < of_int ?t" using h by simp
    have lt: "d (of_int ?t) < of_int ?t" by (rule validDraw_range(2) [OF assms(2) pos])
    then have "d (of_int ?t) \<le> of_int (sum_list (take (Suc ?i) distances))"
      by (simp only: tk less_imp_le)
    from pickLoop_finds [OF i this] obtain p where
      p: "pickLoop (d (of_int ?t)) pixels distances = Some p" by blast
    have "weightedRandomPick d pixels distances = Inr p"
      using p h by (simp add: weightedRandomPick_def foldl_plus_sum_list)
    with p lt show "d (of_int ?t) < of_int ?t \<and>
        (\<exists>p. pickLoop (d (of_int ?t)) pixels distances = Some p \<and>
             weightedRandomPick d pixels distances = Inr p)" by blast
  qed
qed

text \<open>
  The black and white pixels with the weights they get from a black first centre, and the
  draw at half of the multiplier, are an instance: the loop returns the first white pixel.
\<close>

theorem weighted_pick_total_witness:
  "blackWhite \<noteq> [] \<and> validDraw (halfDraws 0) \<and>
   length [0, 0, 195075, 195075 :: int] \<le> length blackWhite \<and>
   0 < sum_list [0, 0, 195075, 195075 :: int] \<and>
   pickLoop (halfDraws 0 (of_int (sum_list [0, 0, 195075, 195075]))) blackWhite
     [0, 0, 195075, 195075] = Some (255, 255, 255) \<and>
   weightedRandomPick (halfDraws 0) blackWhite [0, 0, 195075, 195075] = Inr (255, 255, 255)"
proof -
  have h1: "blackWhite \<noteq> []" by (simp add: blackWhite_def)
  have h2: "validDraw (halfDraws 0)" by (simp add: validDraw_def halfDraws_def)
  have h3: "length [0, 0, 195075, 195075 :: int] \<le> length blackWhite \<and>
            0 < sum_list [0, 0, 195075, 195075 :: int]" by (simp add: blackWhite_def)
  have e: "pickLoop (halfDraws 0 (of_int (sum_list [0, 0, 195075, 195075]))) blackWhite
             [0, 0, 195075, 195075] = Some (255, 255, 255)"
    by (simp add: blackWhite_def halfDraws_def)
  from weighted_pick_total [OF h1 h2, of "[0, 0, 195075, 195075]"] h3 e
  have "weightedRandomPick (halfDraws 0) blackWhite [0, 0, 195075, 195075] = Inr (255, 255, 255)"
    by auto
  then show ?thesis using h1 h2 h3 e by simp
qed

end
